theory Spec2Isabelle
  imports Main "HOL-Library.Word"
begin

section \<open>The text dumper of klepto: \<open>pkg/dumper/query/dumper.go\<close>\<close>

subsection \<open>Values of type \<open>interface{}\<close>\<close>

text \<open>
  A column value has the static type \<open>interface{}\<close>; the type switch of
  \<open>toSQLStringValue\<close> looks at its dynamic type. One constructor stands for each
  dynamic type the switch names, and \<open>VOther\<close> for every other dynamic type, tagged with
  what that type is. A Go \<open>string\<close> and a \<open>[]byte\<close> are both sequences of bytes, here
  \<open>char list\<close>. A \<open>float64\<close> is its 64 bits, a \<open>time.Time\<close> its three fields.
  \<open>VPtr None\<close> is the nil pointer of type \<open>*interface{}\<close>, \<open>VPtr (Some v)\<close> a pointer to an
  interface holding \<open>v\<close>; a pointer that reaches itself has no counterpart here.
\<close>

datatype Time = Time (wall: "64 word") (ext: "64 word") (loc: string)

datatype gotype =
    TInt | TInt8 | TInt16 | TInt32
  | TUint | TUint8 | TUint16 | TUint32 | TUint64
  | TFloat32
  | TNamed string

datatype gvalue =
    VInt64 "64 word"
  | VFloat64 "64 word"
  | VBool bool
  | VString string
  | VBytes "char list"
  | VTime Time
  | VNil
  | VPtr "gvalue option"
  | VOther gotype

text \<open>\<open>wErrors.New msg\<close> and \<open>wErrors.Wrap err msg\<close>.\<close>

datatype goerror = New string | Wrap goerror string

text \<open>A call returns its results or panics.\<close>

datatype panic = NilDereference

datatype 'a go = Ret 'a | Panic panic

text \<open>
  The library functions the dumper calls and that stay parameters here:
  \<open>fmt.Sprintf("%v", f)\<close> for a \<open>float64\<close>, \<open>time.Time.String\<close>, and squirrel's
  \<open>sq.DebugSqlizer(sq.Insert(tableName).SetMap(columnMap))\<close>.
\<close>

record libs =
  fmtFloat64 :: "64 word \<Rightarrow> string"
  timeString :: "Time \<Rightarrow> string"
  debugInsert :: "string \<Rightarrow> (string \<rightharpoonup> string) \<Rightarrow> string"

subsection \<open>\<open>strconv.FormatInt(value, 10)\<close> and \<open>strconv.FormatBool\<close>\<close>

definition digit_char :: "nat \<Rightarrow> char" where
  "digit_char d = char_of (48 + d)"

fun dec_digits :: "nat \<Rightarrow> string" where
  "dec_digits n = (if n < 10 then [digit_char n] else dec_digits (n div 10) @ [digit_char (n mod 10)])"

declare dec_digits.simps [simp del]

definition FormatInt :: "int \<Rightarrow> string" where
  "FormatInt i = (if i < 0 then CHR ''-'' # dec_digits (nat (- i)) else dec_digits (nat i))"

definition FormatBool :: "bool \<Rightarrow> string" where
  "FormatBool b = (if b then ''true'' else ''false'')"

text \<open>Reading a decimal numeral back, to say that \<open>FormatInt\<close> is exact.\<close>

definition digit_val :: "char \<Rightarrow> nat" where
  "digit_val c = of_char c - 48"

definition dec_value :: "string \<Rightarrow> nat" where
  "dec_value s = foldl (\<lambda>acc c. 10 * acc + digit_val c) 0 s"

definition ParseInt :: "string \<Rightarrow> int" where
  "ParseInt s = (case s of
       [] \<Rightarrow> 0
     | c # cs \<Rightarrow> if c = CHR ''-'' then - int (dec_value cs) else int (dec_value s))"

subsection \<open>The Value Coercer: \<open>toSQLStringValue\<close>\<close>

text \<open>
  \<open>src == nil\<close> compares the interface value \<open>src\<close> with the nil interface: it holds only
  of an interface with no dynamic type.
\<close>

definition is_nil_interface :: "gvalue \<Rightarrow> bool" where
  "is_nil_interface src = (case src of VNil \<Rightarrow> True | _ \<Rightarrow> False)"

definition could_not_parse :: goerror where
  "could_not_parse = New ''could not parse type''"

text \<open>
  The type switch, one equation for each \<open>case\<close>. Inside a \<open>case T\<close> the assertion
  \<open>src.(T)\<close> succeeds, so that the final \<open>return "", nil\<close> is never reached. In
  \<open>case *interface{}\<close> the code tests \<open>src == nil\<close>, then dereferences
  \<open>src.(*interface{})\<close>, which panics on the nil pointer.
\<close>

fun toSQLStringValue :: "libs \<Rightarrow> gvalue \<Rightarrow> (string \<times> goerror option) go" where
  "toSQLStringValue L (VInt64 v) = Ret (FormatInt (sint v), None)"
| "toSQLStringValue L (VFloat64 v) = Ret (fmtFloat64 L v, None)"
| "toSQLStringValue L (VBool v) = Ret (FormatBool v, None)"
| "toSQLStringValue L (VString v) = Ret (v, None)"
| "toSQLStringValue L (VBytes v) = Ret (v, None)"
| "toSQLStringValue L (VTime v) = Ret (timeString L v, None)"
| "toSQLStringValue L VNil = Ret (''NULL'', None)"
| "toSQLStringValue L (VPtr p) =
     (if is_nil_interface (VPtr p) then Ret (''NULL'', None)
      else case p of
             None \<Rightarrow> Panic NilDereference
           | Some v \<Rightarrow> toSQLStringValue L v)"
| "toSQLStringValue L (VOther t) = Ret ('''', Some could_not_parse)"

subsection \<open>The Row Serializer: \<open>toSQLColumnMap\<close>\<close>

text \<open>
  A \<open>database.Row\<close> is a \<open>map[string]interface{}\<close>. \<open>range\<close> visits its entries in an
  order the language leaves open; a row is given here as the list of its entries in the
  order this call visits them. \<open>fmt.Sprintf("%v", strValue)\<close> of a string is that string.
\<close>

type_synonym row = "(string \<times> gvalue) list"

fun range_row :: "libs \<Rightarrow> row \<Rightarrow> (string \<rightharpoonup> string) \<Rightarrow> ((string \<rightharpoonup> string) \<times> goerror option) go" where
  "range_row L [] sqlColumnMap = Ret (sqlColumnMap, None)"
| "range_row L ((column, v) # rest) sqlColumnMap =
     (case toSQLStringValue L v of
        Panic p \<Rightarrow> Panic p
      | Ret (strValue, Some err) \<Rightarrow> Ret (sqlColumnMap, Some err)
      | Ret (strValue, None) \<Rightarrow> range_row L rest (sqlColumnMap(column \<mapsto> strValue)))"

definition toSQLColumnMap :: "libs \<Rightarrow> row \<Rightarrow> ((string \<rightharpoonup> string) \<times> goerror option) go" where
  "toSQLColumnMap L r = range_row L r Map.empty"

subsection \<open>What \<open>Dump\<close> is given\<close>

text \<open>
  Of a \<open>config.Table\<close> the dumper reads \<open>IgnoreData\<close>; everything else in it is
  \<open>Settings\<close>, which only \<open>reader.NewReadTableOpt\<close> looks at.

  Modelled from the spec: \<open>config.Tables.FindByName\<close> belongs to the package
  \<open>pkg/config\<close>, outside this file. The spec says a lookup by table name yields the
  configuration entry or "not found"; the tables argument of \<open>Dump\<close> is therefore the
  lookup itself, a map from table names to entries, \<open>None\<close> standing for the nil result.
\<close>

record 'x Table =
  IgnoreData :: bool
  Settings :: 'x

text \<open>
  Modelled from the spec: \<open>reader.Reader\<close> is an interface whose implementations lie
  outside this file. The spec says that populating a row stream pushes zero or more rows
  into the stream, then closes it, and returns an error or none. \<open>ReadTable\<close> therefore
  gives, for a table and its read options, the rows that the call will push and the
  error that it will return after closing the stream.
\<close>

record 'o Reader =
  GetTables :: "goerror + string list"
  GetStructure :: "goerror + string"
  ReadTable :: "string \<Rightarrow> 'o \<Rightarrow> row list \<times> goerror option"

text \<open>
  The dumper with its collaborators: the libraries, the reader (field \<open>reader\<close> of
  \<open>textDumper\<close>), \<open>io.WriteString\<close> on the sink (field \<open>output\<close>, a state of type \<open>'w\<close>,
  with the error of the write), the \<open>cfgTables\<close> argument, \<open>reader.NewReadTableOpt\<close> and
  the zero value of \<open>reader.ReadTableOpt\<close> that \<open>var opts\<close> declares.
\<close>

record ('w, 'x, 'o) world =
  lib :: libs
  reader :: "'o Reader"
  WriteString :: "'w \<Rightarrow> string \<Rightarrow> 'w \<times> goerror option"
  cfgTables :: "string \<Rightarrow> 'x Table option"
  NewReadTableOpt :: "'x Table \<Rightarrow> 'o"
  zeroOpt :: 'o

subsection \<open>The state of a run of \<open>Dump\<close>\<close>

text \<open>A logrus entry: level, the field \<open>table\<close>, the message, the error attached.\<close>

datatype level = DebugLevel | ErrorLevel | FatalLevel

datatype entry = Entry level string string "goerror option"

text \<open>
  The process stops when \<open>logger.Fatal\<close> calls \<open>os.Exit(1)\<close> or when a goroutine panics.
\<close>

datatype halt = Exit nat | Crash panic

text \<open>
  Where a worker goroutine stands: blocked in \<open>row, more := <-rowChan\<close>; holding a row
  it received (line 75 is next); having written the insert statement (line 84 is next);
  returned. \<open>chanClosed\<close> says whether the worker's \<open>rowChan\<close> has been closed.
\<close>

datatype wpc = Receiving | Holding row | Newline | Finished

record worker =
  tableName :: string
  pc :: wpc
  chanClosed :: bool

text \<open>
  Where \<open>Dump\<close> itself stands: at its first line; at the head of the \<open>range\<close> loop with
  the tables still to visit; inside \<open>d.reader.ReadTable(tbl, rowChan, opts)\<close>, with the
  table, the number of the worker that owns \<open>rowChan\<close>, the rows still to push, the error
  the call will return and the tables still to visit; returned.
\<close>

datatype dpc =
    AtEntry
  | AtRange "string list"
  | InReadTable string nat "row list" "goerror option" "string list"
  | Returned "goerror option"

text \<open>
  \<open>signals\<close> lists, oldest first, the number of the worker behind each value sent on
  \<open>done\<close>; \<open>reads\<close> lists the calls of \<open>ReadTable\<close> made so far.
\<close>

record ('w, 'o) sys =
  dump :: dpc
  workers :: "worker list"
  sink :: 'w
  logs :: "entry list"
  reads :: "(string \<times> 'o) list"
  signals :: "nat list"
  halted :: "halt option"

definition init :: "'w \<Rightarrow> ('w, 'o) sys" where
  "init out = \<lparr>dump = AtEntry, workers = [], sink = out, logs = [], reads = [],
     signals = [], halted = None\<rparr>"

definition log_error :: "string \<Rightarrow> string \<Rightarrow> goerror option \<Rightarrow> entry list" where
  "log_error tbl msg e = (case e of None \<Rightarrow> [] | Some err \<Rightarrow> [Entry ErrorLevel tbl msg (Some err)])"

subsection \<open>The steps of \<open>Dump\<close>\<close>

text \<open>Lines 36 to 47: the tables, the structure, the structure written to the sink.\<close>

definition dump_entry :: "('w, 'x, 'o) world \<Rightarrow> ('w, 'o) sys \<Rightarrow> ('w, 'o) sys" where
  "dump_entry W s =
     (case GetTables (reader W) of
        Inl err \<Rightarrow> s\<lparr>dump := Returned (Some (Wrap err ''failed to get tables''))\<rparr>
      | Inr tables \<Rightarrow>
          (case GetStructure (reader W) of
             Inl err \<Rightarrow> s\<lparr>dump := Returned (Some (Wrap err ''could not get database structure''))\<rparr>
           | Inr structure \<Rightarrow>
               (case WriteString W (sink s) structure of
                  (out, Some err) \<Rightarrow>
                    s\<lparr>sink := out,
                      dump := Returned (Some (Wrap err ''could not write structure to output''))\<rparr>
                | (out, None) \<Rightarrow> s\<lparr>sink := out, dump := AtRange tables\<rparr>)))"

text \<open>
  Lines 64 to 90: \<open>make(chan database.Row)\<close>, the \<open>go\<close> statement, the call of
  \<open>ReadTable\<close>. The new worker takes the next number.
\<close>

definition spawn_and_read ::
  "('w, 'x, 'o) world \<Rightarrow> string \<Rightarrow> 'o \<Rightarrow> string list \<Rightarrow> ('w, 'o) sys \<Rightarrow> ('w, 'o) sys" where
  "spawn_and_read W tbl opts rest s =
     (case ReadTable (reader W) tbl opts of
        (rows, err) \<Rightarrow>
          s\<lparr>workers := workers s @ [\<lparr>tableName = tbl, pc = Receiving, chanClosed = False\<rparr>],
            reads := reads s @ [(tbl, opts)],
            dump := InReadTable tbl (length (workers s)) rows err rest\<rparr>)"

text \<open>Lines 50 to 62, then the rest of the loop body unless \<open>continue\<close> is taken.\<close>

definition dump_table ::
  "('w, 'x, 'o) world \<Rightarrow> string \<Rightarrow> string list \<Rightarrow> ('w, 'o) sys \<Rightarrow> ('w, 'o) sys" where
  "dump_table W tbl rest s =
     (case cfgTables W tbl of
        None \<Rightarrow>
          spawn_and_read W tbl (zeroOpt W) rest
            (s\<lparr>logs := logs s @ [Entry DebugLevel tbl ''no configuration found for table'' None]\<rparr>)
      | Some tableConfig \<Rightarrow>
          if IgnoreData tableConfig
          then s\<lparr>logs := logs s @ [Entry DebugLevel tbl ''ignoring data to dump'' None],
                 dump := AtRange rest\<rparr>
          else spawn_and_read W tbl (NewReadTableOpt W tableConfig) rest s)"

text \<open>
  Inside \<open>ReadTable\<close>: a row is sent on the unbuffered \<open>rowChan\<close> only while the worker is
  blocked in its receive, and passes to the worker; with no row left the channel is
  closed, the call returns, line 91 logs its error and the loop goes on.
\<close>

definition read_table_step ::
  "string \<Rightarrow> nat \<Rightarrow> row list \<Rightarrow> goerror option \<Rightarrow> string list \<Rightarrow> ('w, 'o) sys \<Rightarrow> ('w, 'o) sys option" where
  "read_table_step tbl i rows err rest s =
     (if i < length (workers s) then
        (case rows of
           r # rs \<Rightarrow>
             if pc (workers s ! i) = Receiving \<and> \<not> chanClosed (workers s ! i)
             then Some (s\<lparr>workers := (workers s)[i := (workers s ! i)\<lparr>pc := Holding r\<rparr>],
                          dump := InReadTable tbl i rs err rest\<rparr>)
             else None
         | [] \<Rightarrow>
             Some (s\<lparr>workers := (workers s)[i := (workers s ! i)\<lparr>chanClosed := True\<rparr>],
                     logs := logs s @ log_error tbl ''error while reading table'' err,
                     dump := AtRange rest\<rparr>))
      else None)"

definition dump_step :: "('w, 'x, 'o) world \<Rightarrow> ('w, 'o) sys \<Rightarrow> ('w, 'o) sys option" where
  "dump_step W s =
     (case dump s of
        AtEntry \<Rightarrow> Some (dump_entry W s)
      | AtRange [] \<Rightarrow> Some (s\<lparr>dump := Returned None\<rparr>)
      | AtRange (tbl # rest) \<Rightarrow> Some (dump_table W tbl rest s)
      | InReadTable tbl i rows err rest \<Rightarrow> read_table_step tbl i rows err rest s
      | Returned e \<Rightarrow> None)"

subsection \<open>The steps of a worker: the goroutine of lines 67 to 88\<close>

text \<open>
  A worker blocked in its receive goes on by itself only when the channel is closed:
  \<open>more\<close> is false, it sends on \<open>done\<close> and returns. The send is taken to go through at
  once, as it does when \<open>done\<close> has room or its receiver is waiting. Holding a row, the
  worker serializes it: a panic crashes the process, an error makes \<open>logger.Fatal\<close> log and
  exit, and otherwise the insert statement is written, a write error being logged. Then
  the new line is written, a write error being logged, and the loop starts over.
\<close>

definition worker_step ::
  "('w, 'x, 'o) world \<Rightarrow> nat \<Rightarrow> ('w, 'o) sys \<Rightarrow> ('w, 'o) sys option" where
  "worker_step W i s =
     (if i < length (workers s) then
        (let w = workers s ! i in
         case pc w of
           Receiving \<Rightarrow>
             if chanClosed w
             then Some (s\<lparr>signals := signals s @ [i],
                          workers := (workers s)[i := w\<lparr>pc := Finished\<rparr>]\<rparr>)
             else None
         | Holding r \<Rightarrow>
             (case toSQLColumnMap (lib W) r of
                Panic p \<Rightarrow> Some (s\<lparr>halted := Some (Crash p)\<rparr>)
              | Ret (columnMap, Some err) \<Rightarrow>
                  Some (s\<lparr>logs := logs s @
                            [Entry FatalLevel (tableName w) ''could not convert value to string'' (Some err)],
                          halted := Some (Exit 1)\<rparr>)
              | Ret (columnMap, None) \<Rightarrow>
                  (case WriteString W (sink s) (debugInsert (lib W) (tableName w) columnMap) of
                     (out, e) \<Rightarrow>
                       Some (s\<lparr>sink := out,
                               logs := logs s @
                                 log_error (tableName w) ''could not write insert statement to output'' e,
                               workers := (workers s)[i := w\<lparr>pc := Newline\<rparr>]\<rparr>)))
         | Newline \<Rightarrow>
             (case WriteString W (sink s) [CHR 0x0A] of
                (out, e) \<Rightarrow>
                  Some (s\<lparr>sink := out,
                          logs := logs s @
                            log_error (tableName w) ''could not write new line to output'' e,
                          workers := (workers s)[i := w\<lparr>pc := Receiving\<rparr>]\<rparr>))
         | Finished \<Rightarrow> None)
      else None)"

subsection \<open>Runs\<close>

text \<open>
  One step of the process is a step of \<open>Dump\<close> or of one worker; a process that has
  exited or crashed takes no step. A run follows a schedule, the list of who moves;
  it is \<open>None\<close> when the schedule asks for a step that cannot be taken.
\<close>

datatype actor = Dump | Worker nat

definition step :: "('w, 'x, 'o) world \<Rightarrow> actor \<Rightarrow> ('w, 'o) sys \<Rightarrow> ('w, 'o) sys option" where
  "step W a s =
     (if halted s \<noteq> None then None
      else case a of Dump \<Rightarrow> dump_step W s | Worker i \<Rightarrow> worker_step W i s)"

fun run :: "('w, 'x, 'o) world \<Rightarrow> actor list \<Rightarrow> ('w, 'o) sys \<Rightarrow> ('w, 'o) sys option" where
  "run W [] s = Some s"
| "run W (a # as) s = (case step W a s of None \<Rightarrow> None | Some s' \<Rightarrow> run W as s')"

subsection \<open>Notions used to state the properties\<close>

text \<open>
  A value is unsupported when its dynamic type is none of those the type switch names,
  also behind pointers of type \<open>*interface{}\<close>.
\<close>

fun unsupported :: "gvalue \<Rightarrow> bool" where
  "unsupported (VOther t) = True"
| "unsupported (VPtr (Some v)) = unsupported v"
| "unsupported _ = False"

text \<open>A table is ignored when it has a configuration entry whose \<open>IgnoreData\<close> is set.\<close>

definition ignored :: "('w, 'x, 'o) world \<Rightarrow> string \<Rightarrow> bool" where
  "ignored W tbl = (case cfgTables W tbl of None \<Rightarrow> False | Some tableConfig \<Rightarrow> IgnoreData tableConfig)"

text \<open>The read options of a table that is not ignored: the value of \<open>opts\<close> at line 90.\<close>

definition table_opts :: "('w, 'x, 'o) world \<Rightarrow> string \<Rightarrow> 'o" where
  "table_opts W tbl =
     (case cfgTables W tbl of None \<Rightarrow> zeroOpt W | Some tableConfig \<Rightarrow> NewReadTableOpt W tableConfig)"

text \<open>The table names and the channel states of the workers, in the order they were started.\<close>

definition names :: "('w, 'o) sys \<Rightarrow> string list" where
  "names s = map tableName (workers s)"

definition closeds :: "('w, 'o) sys \<Rightarrow> bool list" where
  "closeds s = map chanClosed (workers s)"

text \<open>
  What holds of the workers at each point of \<open>Dump\<close>, given the tables the reader lists:
  the workers started are those of the tables visited and not ignored, and every
  channel but the one being populated is closed.
\<close>

definition dump_ok :: "('w, 'x, 'o) world \<Rightarrow> string list \<Rightarrow> ('w, 'o) sys \<Rightarrow> bool" where
  "dump_ok W tables s \<longleftrightarrow>
     (dump s = AtEntry \<longrightarrow> names s = []) \<and>
     (\<forall>rest. dump s = AtRange rest \<longrightarrow>
        (\<exists>pre. tables = pre @ rest \<and> names s = filter (\<lambda>t. \<not> ignored W t) pre) \<and>
        False \<notin> set (closeds s)) \<and>
     (\<forall>tbl i rows err rest. dump s = InReadTable tbl i rows err rest \<longrightarrow>
        (\<exists>pre. tables = pre @ tbl # rest \<and> names s = filter (\<lambda>t. \<not> ignored W t) pre @ [tbl]) \<and>
        \<not> ignored W tbl \<and> Suc i = length (names s) \<and>
        False \<notin> set (take i (closeds s))) \<and>
     (dump s = Returned None \<longrightarrow>
        names s = filter (\<lambda>t. \<not> ignored W t) tables \<and> False \<notin> set (closeds s)) \<and>
     (\<forall>e. dump s = Returned (Some e) \<longrightarrow> names s = [])"

text \<open>No worker, read or signal belongs to an ignored table.\<close>

definition names_ok :: "('w, 'x, 'o) world \<Rightarrow> ('w, 'o) sys \<Rightarrow> bool" where
  "names_ok W s \<longleftrightarrow>
     (\<forall>i < length (workers s). \<not> ignored W (tableName (workers s ! i))) \<and>
     (\<forall>k < length (reads s). \<not> ignored W (fst (reads s ! k))) \<and>
     (\<forall>i \<in> set (signals s). i < length (workers s))"

text \<open>
  The signals sent are those of the workers that have returned, one each, and a worker
  returns only with its channel closed.
\<close>

definition signals_ok :: "('w, 'o) sys \<Rightarrow> bool" where
  "signals_ok s \<longleftrightarrow>
     distinct (signals s) \<and>
     (\<forall>i. i \<in> set (signals s) \<longleftrightarrow> i < length (workers s) \<and> pc (workers s ! i) = Finished) \<and>
     (\<forall>i < length (workers s). pc (workers s ! i) = Finished \<longrightarrow> chanClosed (workers s ! i))"

text \<open>A state without its debug entries, and a world without the entry of one table.\<close>

fun is_debug :: "entry \<Rightarrow> bool" where
  "is_debug (Entry l tbl msg e) = (l = DebugLevel)"

definition no_debug :: "('w, 'o) sys \<Rightarrow> ('w, 'o) sys" where
  "no_debug s = s\<lparr>logs := filter (\<lambda>e. \<not> is_debug e) (logs s)\<rparr>"

definition without_entry :: "('w, 'x, 'o) world \<Rightarrow> string \<Rightarrow> ('w, 'x, 'o) world" where
  "without_entry W tbl = W\<lparr>cfgTables := (cfgTables W)(tbl := None)\<rparr>"

subsection \<open>A reader, two sinks and a configuration to run the dumper on\<close>

definition stub_libs :: libs where
  "stub_libs = \<lparr>fmtFloat64 = (\<lambda>f. ''0''), timeString = (\<lambda>t. loc t),
     debugInsert = (\<lambda>t m. ''INSERT INTO '' @ t)\<rparr>"

definition accepting :: "string list \<Rightarrow> string \<Rightarrow> string list \<times> goerror option" where
  "accepting out s = (out @ [s], None)"

definition rejecting :: "string list \<Rightarrow> string \<Rightarrow> string list \<times> goerror option" where
  "rejecting out s = (out, Some (New ''closed pipe''))"

definition demo_rows :: "string \<Rightarrow> row list" where
  "demo_rows tbl =
     (if tbl = ''users''
      then [[(''id'', VInt64 1), (''name'', VString ''Ann'')],
            [(''id'', VInt64 2), (''name'', VString ''Bo'')]]
      else if tbl = ''logs'' then [[(''payload'', VOther (TNamed ''struct''))]]
      else [])"

definition demo ::
  "(string list \<Rightarrow> string \<Rightarrow> string list \<times> goerror option) \<Rightarrow> string list \<Rightarrow>
   (string \<Rightarrow> nat Table option) \<Rightarrow> (string list, nat, nat) world" where
  "demo wr tables cfg =
     \<lparr>lib = stub_libs,
      reader = \<lparr>GetTables = Inr tables, GetStructure = Inr ''CREATE TABLE users;'',
                ReadTable = (\<lambda>tbl opts. (demo_rows tbl, None))\<rparr>,
      WriteString = wr, cfgTables = cfg, NewReadTableOpt = Settings, zeroOpt = 0\<rparr>"

definition picky :: "string list \<Rightarrow> string \<Rightarrow> string list \<times> goerror option" where
  "picky out s =
     (if take 6 s = ''CREATE'' then (out @ [s], None) else (out, Some (New ''closed pipe'')))"

text \<open>
  The scenario of the spec: \<open>users\<close> with two rows and \<open>logs\<close> ignored by configuration,
  run to the end, the worker taking each row as soon as it is sent.
\<close>

definition demo_world :: "(string list, nat, nat) world" where
  "demo_world = demo accepting [''users'', ''logs''] [''logs'' \<mapsto> \<lparr>IgnoreData = True, Settings = 0\<rparr>]"

definition demo_schedule :: "actor list" where
  "demo_schedule =
     [Dump, Dump, Dump, Worker 0, Worker 0, Dump, Worker 0, Worker 0, Dump, Worker 0, Dump, Dump]"

definition demo_final :: "(string list, nat) sys" where
  "demo_final =
     \<lparr>dump = Returned None,
      workers = [\<lparr>tableName = ''users'', pc = Finished, chanClosed = True\<rparr>],
      sink = [''CREATE TABLE users;'', ''INSERT INTO users'', [CHR 0x0A],
              ''INSERT INTO users'', [CHR 0x0A]],
      logs = [Entry DebugLevel ''users'' ''no configuration found for table'' None,
              Entry DebugLevel ''logs'' ''ignoring data to dump'' None],
      reads = [(''users'', 0)], signals = [0], halted = None\<rparr>"

text \<open>
  The table \<open>users\<close> alone on a sink that rejects every insert statement and new line:
  the state in which the worker holds the first row, and the state in which both rows
  have been handled and the channel is closed.
\<close>

definition picky_world :: "(string list, nat, nat) world" where
  "picky_world = demo picky [''users''] Map.empty"

definition picky_holding :: "(string list, nat) sys" where
  "picky_holding =
     \<lparr>dump = InReadTable ''users'' 0 [[(''id'', VInt64 2), (''name'', VString ''Bo'')]] None [],
      workers = [\<lparr>tableName = ''users'',
                  pc = Holding [(''id'', VInt64 1), (''name'', VString ''Ann'')],
                  chanClosed = False\<rparr>],
      sink = [''CREATE TABLE users;''],
      logs = [Entry DebugLevel ''users'' ''no configuration found for table'' None],
      reads = [(''users'', 0)], signals = [], halted = None\<rparr>"



text \<open>A configuration with an entry for \<open>users\<close> that does not ignore its data.\<close>

definition entry_world :: "nat \<Rightarrow> (string list, nat, nat) world" where
  "entry_world n = demo accepting [''users''] [''users'' \<mapsto> \<lparr>IgnoreData = False, Settings = n\<rparr>]"

text \<open>
  The table \<open>logs\<close> alone, not ignored: its one row holds a value of an unsupported
  type. The state is the one in which the worker holds that row.
\<close>

definition logs_world :: "(string list, nat, nat) world" where
  "logs_world = demo accepting [''logs''] Map.empty"

definition logs_holding :: "(string list, nat) sys" where
  "logs_holding =
     \<lparr>dump = InReadTable ''logs'' 0 [] None [],
      workers = [\<lparr>tableName = ''logs'',
                  pc = Holding [(''payload'', VOther (TNamed ''struct''))],
                  chanClosed = False\<rparr>],
      sink = [''CREATE TABLE users;''],
      logs = [Entry DebugLevel ''logs'' ''no configuration found for table'' None],
      reads = [(''logs'', 0)], signals = [], halted = None\<rparr>"

text \<open>The run of \<open>users\<close> with a configuration entry, to the return of \<open>Dump\<close>.\<close>

definition entry_schedule :: "actor list" where
  "entry_schedule =
     [Dump, Dump, Dump, Worker 0, Worker 0, Dump, Worker 0, Worker 0, Dump, Worker 0, Dump]"

section \<open>Properties\<close>

subsection \<open>Decimal numerals\<close>

lemma digit_val_digit_char: "d < 10 \<Longrightarrow> digit_val (digit_char d) = d"
  by (simp add: digit_val_def digit_char_def)

lemma dec_value_snoc: "dec_value (s @ [c]) = 10 * dec_value s + digit_val c"
  by (simp add: dec_value_def)

lemma dec_value_dec_digits: "dec_value (dec_digits n) = n"
proof (induction n rule: dec_digits.induct)
  case (1 n)
  show ?case
  proof (cases "n < 10")
    case True
    then show ?thesis
      by (subst dec_digits.simps) (simp add: dec_value_def digit_val_digit_char)
  next
    case False
    with 1 show ?thesis
      by (subst dec_digits.simps) (simp add: dec_value_snoc digit_val_digit_char)
  qed
qed

lemma dec_digits_not_Nil: "dec_digits n \<noteq> []"
  by (subst dec_digits.simps) simp

lemma digit_char_not_minus: "d < 10 \<Longrightarrow> digit_char d \<noteq> CHR ''-''"
proof
  assume d: "d < 10" and e: "digit_char d = CHR ''-''"
  from e have "digit_val (digit_char d) = digit_val (CHR ''-'')" by simp
  with d have "d = digit_val (CHR ''-'')" by (simp add: digit_val_digit_char)
  then have "d = 0" by (simp add: digit_val_def)
  with e show False by (simp add: digit_char_def char_of_def)
qed

lemma hd_dec_digits: "hd (dec_digits n) \<noteq> CHR ''-''"
proof (induction n rule: dec_digits.induct)
  case (1 n)
  show ?case
  proof (cases "n < 10")
    case True
    then show ?thesis
      by (subst dec_digits.simps) (simp add: digit_char_not_minus)
  next
    case False
    with 1 show ?thesis
      by (subst dec_digits.simps) (simp add: dec_digits_not_Nil)
  qed
qed

lemma ParseInt_FormatInt: "ParseInt (FormatInt i) = i"
proof (cases "i < 0")
  case True
  then show ?thesis by (simp add: ParseInt_def FormatInt_def dec_value_dec_digits)
next
  case False
  obtain c cs where e: "dec_digits (nat i) = c # cs"
    using dec_digits_not_Nil by (cases "dec_digits (nat i)") auto
  have "c \<noteq> CHR ''-''" using hd_dec_digits [of "nat i"] e by simp
  with False e show ?thesis
    using dec_value_dec_digits [of "nat i"] by (simp add: ParseInt_def FormatInt_def)
qed

subsection \<open>The coercer and the serializer\<close>

lemma unsupported_fails:
  "unsupported v \<Longrightarrow> toSQLStringValue L v = Ret ('''', Some could_not_parse)"
  by (induction v rule: unsupported.induct) (simp_all add: is_nil_interface_def)

lemma range_row_append:
  "range_row L pre m0 = Ret (m, None) \<Longrightarrow> range_row L (pre @ post) m0 = range_row L post m"
proof (induction pre arbitrary: m0)
  case Nil
  then show ?case by simp
next
  case (Cons cv pre)
  obtain c v where cv: "cv = (c, v)" by (cases cv)
  from Cons.prems cv show ?case
    by (auto split: go.splits option.splits intro: Cons.IH)
qed

lemma range_row_dom:
  "range_row L r m0 = Ret (m, None) \<Longrightarrow> dom m = dom m0 \<union> fst ` set r"
proof (induction r arbitrary: m0)
  case Nil
  then show ?case by simp
next
  case (Cons cv r)
  obtain c v where cv: "cv = (c, v)" by (cases cv)
  from Cons.prems cv obtain x where
    x: "toSQLStringValue L v = Ret (x, None)" and
    rest: "range_row L r (m0(c \<mapsto> x)) = Ret (m, None)"
    by (auto split: go.splits option.splits)
  from Cons.IH [OF rest] cv show ?case by auto
qed

lemma range_row_no_skip:
  "(c, v) \<in> set r \<Longrightarrow> unsupported v \<Longrightarrow> range_row L r m0 \<noteq> Ret (m, None)"
proof (induction r arbitrary: m0)
  case Nil
  then show ?case by simp
next
  case (Cons cv r)
  obtain c' v' where cv: "cv = (c', v')" by (cases cv)
  show ?case
  proof (cases "cv = (c, v)")
    case True
    with Cons.prems show ?thesis by (simp add: unsupported_fails)
  next
    case False
    with Cons.prems have "(c, v) \<in> set r" by simp
    from Cons.IH [OF this Cons.prems(2)] cv show ?thesis
      by (auto split: go.splits option.splits)
  qed
qed

subsection \<open>The steps, case by case\<close>

lemma worker_step_cases:
  assumes "worker_step W i s = Some s'"
  obtains
    (signal) "i < length (workers s)" "pc (workers s ! i) = Receiving" "chanClosed (workers s ! i)"
      "s' = s\<lparr>signals := signals s @ [i], workers := (workers s)[i := (workers s ! i)\<lparr>pc := Finished\<rparr>]\<rparr>"
  | (crash) r p where "i < length (workers s)" "pc (workers s ! i) = Holding r"
      "toSQLColumnMap (lib W) r = Panic p" "s' = s\<lparr>halted := Some (Crash p)\<rparr>"
  | (fatal) r m err where "i < length (workers s)" "pc (workers s ! i) = Holding r"
      "toSQLColumnMap (lib W) r = Ret (m, Some err)"
      "s' = s\<lparr>logs := logs s @
          [Entry FatalLevel (tableName (workers s ! i)) ''could not convert value to string'' (Some err)],
        halted := Some (Exit 1)\<rparr>"
  | (insert) r m out e where "i < length (workers s)" "pc (workers s ! i) = Holding r"
      "toSQLColumnMap (lib W) r = Ret (m, None)"
      "WriteString W (sink s) (debugInsert (lib W) (tableName (workers s ! i)) m) = (out, e)"
      "s' = s\<lparr>sink := out,
        logs := logs s @
          log_error (tableName (workers s ! i)) ''could not write insert statement to output'' e,
        workers := (workers s)[i := (workers s ! i)\<lparr>pc := Newline\<rparr>]\<rparr>"
  | (newline) out e where "i < length (workers s)" "pc (workers s ! i) = Newline"
      "WriteString W (sink s) [CHR 0x0A] = (out, e)"
      "s' = s\<lparr>sink := out,
        logs := logs s @ log_error (tableName (workers s ! i)) ''could not write new line to output'' e,
        workers := (workers s)[i := (workers s ! i)\<lparr>pc := Receiving\<rparr>]\<rparr>"
proof -
  from assms have len: "i < length (workers s)"
    by (simp add: worker_step_def split: if_splits)
  show ?thesis
  proof (cases "pc (workers s ! i)")
    case Receiving
    with assms len have "chanClosed (workers s ! i)"
      and "s' = s\<lparr>signals := signals s @ [i], workers := (workers s)[i := (workers s ! i)\<lparr>pc := Finished\<rparr>]\<rparr>"
      by (simp_all add: worker_step_def Let_def split: if_splits)
    with len Receiving show ?thesis by (rule signal)
  next
    case (Holding r)
    show ?thesis
    proof (cases "toSQLColumnMap (lib W) r")
      case (Panic p)
      with assms len Holding have "s' = s\<lparr>halted := Some (Crash p)\<rparr>"
        by (simp add: worker_step_def Let_def)
      with len Holding Panic show ?thesis by (rule crash)
    next
      case (Ret me)
      obtain m eo where me: "me = (m, eo)" by (cases me)
      show ?thesis
      proof (cases eo)
        case (Some err)
        with assms len Holding Ret me have "s' = s\<lparr>logs := logs s @
          [Entry FatalLevel (tableName (workers s ! i)) ''could not convert value to string'' (Some err)],
          halted := Some (Exit 1)\<rparr>"
          by (simp add: worker_step_def Let_def)
        with len Holding Ret me Some show ?thesis by (auto intro: fatal)
      next
        case None
        obtain out e where w: "WriteString W (sink s) (debugInsert (lib W) (tableName (workers s ! i)) m) = (out, e)"
          by (cases "WriteString W (sink s) (debugInsert (lib W) (tableName (workers s ! i)) m)")
        with assms len Holding Ret me None have "s' = s\<lparr>sink := out,
          logs := logs s @
            log_error (tableName (workers s ! i)) ''could not write insert statement to output'' e,
          workers := (workers s)[i := (workers s ! i)\<lparr>pc := Newline\<rparr>]\<rparr>"
          by (simp add: worker_step_def Let_def)
        with len Holding Ret me None w show ?thesis by (auto intro: insert)
      qed
    qed
  next
    case Newline
    obtain out e where w: "WriteString W (sink s) [CHR 0x0A] = (out, e)"
      by (cases "WriteString W (sink s) [CHR 0x0A]")
    with assms len Newline have "s' = s\<lparr>sink := out,
        logs := logs s @ log_error (tableName (workers s ! i)) ''could not write new line to output'' e,
        workers := (workers s)[i := (workers s ! i)\<lparr>pc := Receiving\<rparr>]\<rparr>"
      by (simp add: worker_step_def Let_def)
    with len Newline w show ?thesis by (rule newline)
  next
    case Finished
    with assms len show ?thesis by (simp add: worker_step_def Let_def)
  qed
qed

lemma dump_entry_cases:
  obtains
    (failed) e where "dump_entry W s = s\<lparr>dump := Returned (Some e)\<rparr>"
  | (failed_write) out e where "dump_entry W s = s\<lparr>sink := out, dump := Returned (Some e)\<rparr>"
  | (ok) tables out where "GetTables (reader W) = Inr tables"
      "dump_entry W s = s\<lparr>sink := out, dump := AtRange tables\<rparr>"
  unfolding dump_entry_def
  by (cases "GetTables (reader W)"; cases "GetStructure (reader W)";
      fastforce split: prod.splits option.splits)

lemma dump_table_cases:
  obtains
    (skip) "ignored W tbl"
      "dump_table W tbl rest s =
         s\<lparr>logs := logs s @ [Entry DebugLevel tbl ''ignoring data to dump'' None], dump := AtRange rest\<rparr>"
  | (start) rows err dbg where "\<not> ignored W tbl"
      "ReadTable (reader W) tbl (table_opts W tbl) = (rows, err)"
      "dump_table W tbl rest s =
         s\<lparr>logs := logs s @ dbg,
           workers := workers s @ [\<lparr>tableName = tbl, pc = Receiving, chanClosed = False\<rparr>],
           reads := reads s @ [(tbl, table_opts W tbl)],
           dump := InReadTable tbl (length (workers s)) rows err rest\<rparr>"
proof (cases "cfgTables W tbl")
  case None
  obtain rows err where r: "ReadTable (reader W) tbl (zeroOpt W) = (rows, err)"
    by (cases "ReadTable (reader W) tbl (zeroOpt W)")
  with None show ?thesis
    by (intro start [of rows err "[Entry DebugLevel tbl ''no configuration found for table'' None]"])
      (simp_all add: ignored_def table_opts_def dump_table_def spawn_and_read_def)
next
  case (Some c)
  show ?thesis
  proof (cases "IgnoreData c")
    case True
    with Some show ?thesis
      by (intro skip) (simp_all add: ignored_def dump_table_def)
  next
    case False
    obtain rows err where r: "ReadTable (reader W) tbl (NewReadTableOpt W c) = (rows, err)"
      by (cases "ReadTable (reader W) tbl (NewReadTableOpt W c)")
    with Some False show ?thesis
      by (intro start [of rows err "[]"])
        (simp_all add: ignored_def table_opts_def dump_table_def spawn_and_read_def)
  qed
qed

lemma dump_step_cases:
  assumes "dump_step W s = Some s'"
  obtains
    (entry) "dump s = AtEntry" "s' = dump_entry W s"
  | (return) "dump s = AtRange []" "s' = s\<lparr>dump := Returned None\<rparr>"
  | (table) tbl rest where "dump s = AtRange (tbl # rest)" "s' = dump_table W tbl rest s"
  | (send) tbl i r rs err rest where "dump s = InReadTable tbl i (r # rs) err rest"
      "i < length (workers s)" "pc (workers s ! i) = Receiving" "\<not> chanClosed (workers s ! i)"
      "s' = s\<lparr>workers := (workers s)[i := (workers s ! i)\<lparr>pc := Holding r\<rparr>],
              dump := InReadTable tbl i rs err rest\<rparr>"
  | (close) tbl i err rest where "dump s = InReadTable tbl i [] err rest"
      "i < length (workers s)"
      "s' = s\<lparr>workers := (workers s)[i := (workers s ! i)\<lparr>chanClosed := True\<rparr>],
              logs := logs s @ log_error tbl ''error while reading table'' err,
              dump := AtRange rest\<rparr>"
proof (cases "dump s")
  case AtEntry
  with assms show ?thesis by (intro entry) (simp_all add: dump_step_def)
next
  case (AtRange ts)
  with assms show ?thesis
    by (cases ts) (auto simp: dump_step_def intro: return table)
next
  case (InReadTable tbl i rows err rest)
  with assms have len: "i < length (workers s)"
    by (simp add: dump_step_def read_table_step_def split: if_splits)
  show ?thesis
  proof (cases rows)
    case Nil
    with assms InReadTable len show ?thesis
      by (intro close [of tbl i err rest]) (simp_all add: dump_step_def read_table_step_def)
  next
    case (Cons r rs)
    with assms InReadTable len show ?thesis
      by (intro send [of tbl i r rs err rest])
        (simp_all add: dump_step_def read_table_step_def split: if_splits)
  qed
next
  case (Returned e)
  with assms show ?thesis by (simp add: dump_step_def)
qed

subsection \<open>Invariants of a run\<close>

lemma step_cases:
  assumes "step W a s = Some s'"
  obtains (dump) "halted s = None" "a = Dump" "dump_step W s = Some s'"
  | (worker) i where "halted s = None" "a = Worker i" "worker_step W i s = Some s'"
  using assms by (cases a) (auto simp: step_def split: if_splits)

lemma run_invariant:
  assumes step: "\<And>a s s'. P s \<Longrightarrow> step W a s = Some s' \<Longrightarrow> P s'"
  shows "P s \<Longrightarrow> run W sched s = Some s' \<Longrightarrow> P s'"
proof (induction sched arbitrary: s)
  case Nil
  then show ?case by simp
next
  case (Cons a sched)
  from Cons.prems(2) obtain s1 where s1: "step W a s = Some s1" and r: "run W sched s1 = Some s'"
    by (auto split: option.splits)
  from step [OF Cons.prems(1) s1] have "P s1" .
  from Cons.IH [OF this r] show ?case .
qed

lemma dump_step_names:
  assumes inv: "names_ok W s" and st: "dump_step W s = Some s'"
  shows "names_ok W s'"
  using st
proof (cases rule: dump_step_cases)
  case entry
  show ?thesis
    by (rule dump_entry_cases [of W s]) (use inv entry in \<open>simp_all add: names_ok_def\<close>)
next
  case return
  with inv show ?thesis by (simp add: names_ok_def)
next
  case (table tbl rest)
  show ?thesis
  proof (rule dump_table_cases [of W tbl rest s])
    assume "dump_table W tbl rest s =
         s\<lparr>logs := logs s @ [Entry DebugLevel tbl ''ignoring data to dump'' None], dump := AtRange rest\<rparr>"
    with inv table show ?thesis by (simp add: names_ok_def)
  next
    fix rows err dbg
    assume "\<not> ignored W tbl"
      and "dump_table W tbl rest s =
         s\<lparr>logs := logs s @ dbg,
           workers := workers s @ [\<lparr>tableName = tbl, pc = Receiving, chanClosed = False\<rparr>],
           reads := reads s @ [(tbl, table_opts W tbl)],
           dump := InReadTable tbl (length (workers s)) rows err rest\<rparr>"
    with inv table show ?thesis
      by (auto simp: names_ok_def nth_append less_Suc_eq)
  qed
next
  case (send tbl i r rs err rest)
  with inv show ?thesis by (simp add: names_ok_def nth_list_update)
next
  case (close tbl i err rest)
  with inv show ?thesis by (simp add: names_ok_def nth_list_update)
qed

lemma worker_step_names:
  assumes inv: "names_ok W s" and st: "worker_step W i s = Some s'"
  shows "names_ok W s'"
  using st
proof (cases rule: worker_step_cases)
  case signal
  with inv show ?thesis by (simp add: names_ok_def nth_list_update)
next
  case (crash r p)
  with inv show ?thesis by (simp add: names_ok_def)
next
  case (fatal r m err)
  with inv show ?thesis by (simp add: names_ok_def)
next
  case (insert r m out e)
  with inv show ?thesis by (simp add: names_ok_def nth_list_update)
next
  case (newline out e)
  with inv show ?thesis by (simp add: names_ok_def nth_list_update)
qed

lemma step_names: "names_ok W s \<Longrightarrow> step W a s = Some s' \<Longrightarrow> names_ok W s'"
  by (erule step_cases) (auto intro: dump_step_names worker_step_names)

lemma init_names: "names_ok W (init out)"
  by (simp add: names_ok_def init_def)

lemma dump_step_signals:
  assumes inv: "signals_ok s" and st: "dump_step W s = Some s'"
  shows "signals_ok s'"
  using st
proof (cases rule: dump_step_cases)
  case entry
  show ?thesis
    by (rule dump_entry_cases [of W s]) (use inv entry in \<open>simp_all add: signals_ok_def\<close>)
next
  case return
  with inv show ?thesis by (simp add: signals_ok_def)
next
  case (table tbl rest)
  show ?thesis
  proof (rule dump_table_cases [of W tbl rest s])
    assume "dump_table W tbl rest s =
         s\<lparr>logs := logs s @ [Entry DebugLevel tbl ''ignoring data to dump'' None], dump := AtRange rest\<rparr>"
    with inv table show ?thesis by (simp add: signals_ok_def)
  next
    fix rows err dbg
    assume "dump_table W tbl rest s =
         s\<lparr>logs := logs s @ dbg,
           workers := workers s @ [\<lparr>tableName = tbl, pc = Receiving, chanClosed = False\<rparr>],
           reads := reads s @ [(tbl, table_opts W tbl)],
           dump := InReadTable tbl (length (workers s)) rows err rest\<rparr>"
    with inv table show ?thesis
      by (auto simp: signals_ok_def nth_append less_Suc_eq)
  qed
next
  case (send tbl i r rs err rest)
  with inv show ?thesis by (auto simp: signals_ok_def nth_list_update)
next
  case (close tbl i err rest)
  with inv show ?thesis by (auto simp: signals_ok_def nth_list_update)
qed

lemma worker_step_signals:
  assumes inv: "signals_ok s" and st: "worker_step W i s = Some s'"
  shows "signals_ok s'"
  using st
proof (cases rule: worker_step_cases)
  case signal
  with inv show ?thesis by (auto simp: signals_ok_def nth_list_update)
next
  case (crash r p)
  with inv show ?thesis by (simp add: signals_ok_def)
next
  case (fatal r m err)
  with inv show ?thesis by (simp add: signals_ok_def)
next
  case (insert r m out e)
  with inv show ?thesis by (auto simp: signals_ok_def nth_list_update)
next
  case (newline out e)
  with inv show ?thesis by (auto simp: signals_ok_def nth_list_update)
qed

lemma step_signals: "signals_ok s \<Longrightarrow> step W a s = Some s' \<Longrightarrow> signals_ok s'"
  by (erule step_cases) (auto intro: dump_step_signals worker_step_signals)

lemma init_signals: "signals_ok (init out)"
  by (simp add: signals_ok_def init_def)

subsection \<open>The workers that \<open>Dump\<close> has started\<close>

lemma dump_ok_same:
  assumes "dump_ok W tables s" and "dump s' = dump s" and "names s' = names s"
    and "closeds s' = closeds s"
  shows "dump_ok W tables s'"
proof -
  have "dump_ok W tables s' = dump_ok W tables s"
    unfolding dump_ok_def by (simp only: assms(2-4))
  with assms(1) show ?thesis by simp
qed

lemma names_pc [simp]:
  "i < length (workers s) \<Longrightarrow>
   names (s\<lparr>workers := (workers s)[i := (workers s ! i)\<lparr>pc := p\<rparr>]\<rparr>) = names s"
  by (simp add: names_def map_update list_update_same_conv)

lemma closeds_pc [simp]:
  "i < length (workers s) \<Longrightarrow>
   closeds (s\<lparr>workers := (workers s)[i := (workers s ! i)\<lparr>pc := p\<rparr>]\<rparr>) = closeds s"
  by (simp add: closeds_def map_update list_update_same_conv)

lemma names_closed [simp]:
  "i < length (workers s) \<Longrightarrow>
   names (s\<lparr>workers := (workers s)[i := (workers s ! i)\<lparr>chanClosed := b\<rparr>]\<rparr>) = names s"
  by (simp add: names_def map_update list_update_same_conv)

lemma closeds_closed [simp]:
  "closeds (s\<lparr>workers := (workers s)[i := (workers s ! i)\<lparr>chanClosed := b\<rparr>]\<rparr>)
   = (closeds s)[i := b]"
  by (simp add: closeds_def map_update)

lemma names_other [simp]:
  "names (s\<lparr>dump := d\<rparr>) = names s" "names (s\<lparr>sink := out\<rparr>) = names s"
  "names (s\<lparr>logs := l\<rparr>) = names s" "names (s\<lparr>reads := rd\<rparr>) = names s"
  "names (s\<lparr>signals := sg\<rparr>) = names s" "names (s\<lparr>halted := h\<rparr>) = names s"
  by (simp_all add: names_def)

lemma closeds_other [simp]:
  "closeds (s\<lparr>dump := d\<rparr>) = closeds s" "closeds (s\<lparr>sink := out\<rparr>) = closeds s"
  "closeds (s\<lparr>logs := l\<rparr>) = closeds s" "closeds (s\<lparr>reads := rd\<rparr>) = closeds s"
  "closeds (s\<lparr>signals := sg\<rparr>) = closeds s" "closeds (s\<lparr>halted := h\<rparr>) = closeds s"
  by (simp_all add: closeds_def)

lemma names_spawn [simp]:
  "names (s\<lparr>workers := workers s @ [\<lparr>tableName = tbl, pc = p, chanClosed = b\<rparr>]\<rparr>) = names s @ [tbl]"
  by (simp add: names_def)

lemma closeds_spawn [simp]:
  "closeds (s\<lparr>workers := workers s @ [\<lparr>tableName = tbl, pc = p, chanClosed = b\<rparr>]\<rparr>) = closeds s @ [b]"
  by (simp add: closeds_def)

lemma length_closeds: "length (closeds s) = length (names s)"
  by (simp add: closeds_def names_def)

lemma length_names: "length (names s) = length (workers s)"
  by (simp add: names_def)

lemma all_closed_update:
  assumes "False \<notin> set (take i cs)" and "Suc i = length cs"
  shows "False \<notin> set (cs[i := True])"
proof -
  from assms(2) have "cs[i := True] = take i cs @ [True]"
    by (simp add: upd_conv_take_nth_drop)
  with assms(1) show ?thesis by simp
qed

lemma dump_okI:
  assumes "dump s = AtEntry \<Longrightarrow> names s = []"
    and "\<And>rest. dump s = AtRange rest \<Longrightarrow>
        (\<exists>pre. tables = pre @ rest \<and> names s = filter (\<lambda>t. \<not> ignored W t) pre) \<and>
        False \<notin> set (closeds s)"
    and "\<And>tbl i rows err rest. dump s = InReadTable tbl i rows err rest \<Longrightarrow>
        (\<exists>pre. tables = pre @ tbl # rest \<and> names s = filter (\<lambda>t. \<not> ignored W t) pre @ [tbl]) \<and>
        \<not> ignored W tbl \<and> Suc i = length (names s) \<and>
        False \<notin> set (take i (closeds s))"
    and "dump s = Returned None \<Longrightarrow>
        names s = filter (\<lambda>t. \<not> ignored W t) tables \<and> False \<notin> set (closeds s)"
    and "\<And>e. dump s = Returned (Some e) \<Longrightarrow> names s = []"
  shows "dump_ok W tables s"
  unfolding dump_ok_def using assms by blast

lemma dump_step_ok:
  assumes tabs: "GetTables (reader W) = Inr tables"
    and inv: "dump_ok W tables s" and st: "dump_step W s = Some s'"
  shows "dump_ok W tables s'"
  using st
proof (cases rule: dump_step_cases)
  case entry
  from inv entry(1) have nm: "names s = []" by (simp add: dump_ok_def)
  then have cl: "closeds s = []" using length_closeds [of s] by simp
  show ?thesis
  proof (rule dump_entry_cases [of W s])
    fix e assume "dump_entry W s = s\<lparr>dump := Returned (Some e)\<rparr>"
    with entry(2) have "dump s' = Returned (Some e)" "names s' = []"
      by (simp_all add: nm)
    then show ?thesis by (intro dump_okI) simp_all
  next
    fix out e assume "dump_entry W s = s\<lparr>sink := out, dump := Returned (Some e)\<rparr>"
    with entry(2) have "dump s' = Returned (Some e)" "names s' = []"
      by (simp_all add: nm)
    then show ?thesis by (intro dump_okI) simp_all
  next
    fix ts out assume "GetTables (reader W) = Inr ts"
      and "dump_entry W s = s\<lparr>sink := out, dump := AtRange ts\<rparr>"
    with entry(2) tabs have "dump s' = AtRange tables" "names s' = []" "closeds s' = []"
      by (simp_all add: nm cl)
    then show ?thesis by (intro dump_okI) simp_all
  qed
next
  case return
  from inv return(1) have "names s = filter (\<lambda>t. \<not> ignored W t) tables"
    and "False \<notin> set (closeds s)"
    by (auto simp: dump_ok_def)
  moreover from return(2) have "dump s' = Returned None" "names s' = names s" "closeds s' = closeds s"
    by simp_all
  ultimately show ?thesis by (intro dump_okI) simp_all
next
  case (table tbl rest)
  from inv table(1) obtain pre where pre: "tables = pre @ tbl # rest"
    and nm: "names s = filter (\<lambda>t. \<not> ignored W t) pre"
    and cl: "False \<notin> set (closeds s)"
    by (auto simp: dump_ok_def)
  from pre have pre': "tables = (pre @ [tbl]) @ rest" by simp
  show ?thesis
  proof (rule dump_table_cases [of W tbl rest s])
    assume ig: "ignored W tbl" and eq: "dump_table W tbl rest s =
         s\<lparr>logs := logs s @ [Entry DebugLevel tbl ''ignoring data to dump'' None], dump := AtRange rest\<rparr>"
    from nm ig have "names s = filter (\<lambda>t. \<not> ignored W t) (pre @ [tbl])" by simp
    with pre' have ex: "\<exists>p. tables = p @ rest \<and> names s = filter (\<lambda>t. \<not> ignored W t) p" by blast
    from table(2) eq have "dump s' = AtRange rest" "names s' = names s" "closeds s' = closeds s"
      by simp_all
    with ex cl show ?thesis by (intro dump_okI) simp_all
  next
    fix rows err dbg
    assume ig: "\<not> ignored W tbl"
      and eq: "dump_table W tbl rest s =
         s\<lparr>logs := logs s @ dbg,
           workers := workers s @ [\<lparr>tableName = tbl, pc = Receiving, chanClosed = False\<rparr>],
           reads := reads s @ [(tbl, table_opts W tbl)],
           dump := InReadTable tbl (length (workers s)) rows err rest\<rparr>"
    from table(2) eq have d: "dump s' = InReadTable tbl (length (workers s)) rows err rest"
      and n: "names s' = names s @ [tbl]" and c: "closeds s' = closeds s @ [False]"
      by (simp_all add: names_def closeds_def)
    from pre nm have ex: "\<exists>p. tables = p @ tbl # rest \<and>
        names s @ [tbl] = filter (\<lambda>t. \<not> ignored W t) p @ [tbl]" by blast
    have tk: "take (length (workers s)) (closeds s @ [False]) = closeds s"
      by (simp add: closeds_def)
    show ?thesis
      by (intro dump_okI) (use d n c ex ig cl tk in \<open>simp_all add: length_names\<close>)
  qed
next
  case (send tbl i r rs err rest)
  from inv send(1) have
    a: "\<exists>pre. tables = pre @ tbl # rest \<and> names s = filter (\<lambda>t. \<not> ignored W t) pre @ [tbl]"
    and ig: "\<not> ignored W tbl"
    and b: "Suc i = length (names s)" and c: "False \<notin> set (take i (closeds s))"
    by (simp_all add: dump_ok_def)
  from send(2,5) have "dump s' = InReadTable tbl i rs err rest" "names s' = names s"
    "closeds s' = closeds s"
    by (simp_all add: names_def closeds_def map_update list_update_same_conv)
  with a ig b c show ?thesis by (intro dump_okI) simp_all
next
  case (close tbl i err rest)
  from inv close(1) obtain pre where pre: "tables = pre @ tbl # rest"
    and nm: "names s = filter (\<lambda>t. \<not> ignored W t) pre @ [tbl]"
    and ig: "\<not> ignored W tbl"
    and len: "Suc i = length (names s)"
    and cl: "False \<notin> set (take i (closeds s))"
    by (auto simp: dump_ok_def)
  from pre have "tables = (pre @ [tbl]) @ rest" by simp
  moreover from nm ig have "names s = filter (\<lambda>t. \<not> ignored W t) (pre @ [tbl])" by simp
  ultimately have a: "\<exists>p. tables = p @ rest \<and> names s = filter (\<lambda>t. \<not> ignored W t) p" by blast
  from len have "Suc i = length (closeds s)" by (simp add: length_closeds)
  from all_closed_update [OF cl this] have b: "False \<notin> set ((closeds s)[i := True])" .
  from close(2,3) have "dump s' = AtRange rest" "names s' = names s"
    "closeds s' = (closeds s)[i := True]"
    by (simp_all add: names_def closeds_def map_update list_update_same_conv)
  with a b show ?thesis by (intro dump_okI) simp_all
qed

lemma worker_step_ok:
  assumes inv: "dump_ok W tables s" and st: "worker_step W i s = Some s'"
  shows "dump_ok W tables s'"
  using st
proof (cases rule: worker_step_cases)
  case signal
  then show ?thesis by (intro dump_ok_same [OF inv])
      (simp_all add: names_def closeds_def map_update list_update_same_conv)
next
  case (crash r p)
  then show ?thesis by (intro dump_ok_same [OF inv])
      (simp_all add: names_def closeds_def map_update list_update_same_conv)
next
  case (fatal r m err)
  then show ?thesis by (intro dump_ok_same [OF inv])
      (simp_all add: names_def closeds_def map_update list_update_same_conv)
next
  case (insert r m out e)
  then show ?thesis by (intro dump_ok_same [OF inv])
      (simp_all add: names_def closeds_def map_update list_update_same_conv)
next
  case (newline out e)
  then show ?thesis by (intro dump_ok_same [OF inv])
      (simp_all add: names_def closeds_def map_update list_update_same_conv)
qed

lemma init_ok: "dump_ok W tables (init out)"
  by (simp add: dump_ok_def init_def names_def)

subsection \<open>Debug entries and the entry of one table\<close>

lemma no_debug_simps [simp]:
  "dump (no_debug s) = dump s" "workers (no_debug s) = workers s" "sink (no_debug s) = sink s"
  "reads (no_debug s) = reads s" "signals (no_debug s) = signals s" "halted (no_debug s) = halted s"
  "logs (no_debug s) = filter (\<lambda>e. \<not> is_debug e) (logs s)"
  by (simp_all add: no_debug_def)

lemma no_debug_updates [simp]:
  "no_debug (s\<lparr>dump := d\<rparr>) = (no_debug s)\<lparr>dump := d\<rparr>"
  "no_debug (s\<lparr>workers := ws\<rparr>) = (no_debug s)\<lparr>workers := ws\<rparr>"
  "no_debug (s\<lparr>sink := out\<rparr>) = (no_debug s)\<lparr>sink := out\<rparr>"
  "no_debug (s\<lparr>reads := rd\<rparr>) = (no_debug s)\<lparr>reads := rd\<rparr>"
  "no_debug (s\<lparr>signals := sg\<rparr>) = (no_debug s)\<lparr>signals := sg\<rparr>"
  "no_debug (s\<lparr>halted := h\<rparr>) = (no_debug s)\<lparr>halted := h\<rparr>"
  "no_debug (s\<lparr>logs := l\<rparr>) = (no_debug s)\<lparr>logs := filter (\<lambda>e. \<not> is_debug e) l\<rparr>"
  by (simp_all add: no_debug_def)

lemma no_debug_idem [simp]: "no_debug (no_debug s) = no_debug s"
  by (simp add: no_debug_def)

lemma dump_entry_no_debug:
  "no_debug (dump_entry W (no_debug s)) = no_debug (dump_entry W s)"
  by (simp add: dump_entry_def split: sum.splits prod.splits option.splits)

lemma dump_table_no_debug:
  "no_debug (dump_table W tbl rest (no_debug s)) = no_debug (dump_table W tbl rest s)"
proof -
  have "\<And>l. no_debug (spawn_and_read W tbl (zeroOpt W) rest (no_debug s\<lparr>logs := l\<rparr>))
      = no_debug (spawn_and_read W tbl (zeroOpt W) rest (no_debug (s\<lparr>logs := l\<rparr>)))"
    by (simp add: spawn_and_read_def split: prod.splits)
  then show ?thesis
    by (simp add: dump_table_def spawn_and_read_def split: option.splits prod.splits)
qed

lemma read_table_step_no_debug:
  "map_option no_debug (read_table_step tbl i rows err rest (no_debug s))
   = map_option no_debug (read_table_step tbl i rows err rest s)"
  by (auto simp: read_table_step_def split: list.splits)

lemma dump_step_no_debug:
  "map_option no_debug (dump_step W (no_debug s)) = map_option no_debug (dump_step W s)"
  by (simp add: dump_step_def dump_entry_no_debug dump_table_no_debug read_table_step_no_debug
      split: dpc.splits list.splits)

lemma worker_step_no_debug:
  "map_option no_debug (worker_step W i (no_debug s)) = map_option no_debug (worker_step W i s)"
  by (simp add: worker_step_def Let_def split: wpc.splits go.splits prod.splits option.splits)

lemma step_no_debug:
  "map_option no_debug (step W a (no_debug s)) = map_option no_debug (step W a s)"
  by (cases a) (simp_all add: step_def dump_step_no_debug worker_step_no_debug)

lemma run_no_debug:
  assumes sim: "\<And>a s. map_option no_debug (step W' a s) = map_option no_debug (step W a s)"
  shows "no_debug s = no_debug t \<Longrightarrow>
    map_option no_debug (run W' sched s) = map_option no_debug (run W sched t)"
proof (induction sched arbitrary: s t)
  case Nil
  then show ?case by simp
next
  case (Cons a sched)
  have "map_option no_debug (step W' a s) = map_option no_debug (step W' a (no_debug s))"
    by (simp add: step_no_debug)
  also have "\<dots> = map_option no_debug (step W' a (no_debug t))"
    using Cons.prems by simp
  also have "\<dots> = map_option no_debug (step W' a t)"
    by (simp add: step_no_debug)
  also have "\<dots> = map_option no_debug (step W a t)"
    by (rule sim)
  finally have eq: "map_option no_debug (step W' a s) = map_option no_debug (step W a t)" .
  show ?case
  proof (cases "step W' a s")
    case None
    with eq have "step W a t = None" by simp
    with None show ?thesis by simp
  next
    case (Some s1)
    with eq obtain t1 where t1: "step W a t = Some t1" and "no_debug s1 = no_debug t1"
      by (cases "step W a t") auto
    from Cons.IH [OF this(2)] Some t1 show ?thesis by simp
  qed
qed

lemma without_entry_fields:
  "lib (without_entry W tbl) = lib W" "WriteString (without_entry W tbl) = WriteString W"
  "reader (without_entry W tbl) = reader W" "zeroOpt (without_entry W tbl) = zeroOpt W"
  "NewReadTableOpt (without_entry W tbl) = NewReadTableOpt W"
  by (simp_all add: without_entry_def)

lemma without_entry_worker_step: "worker_step (without_entry W tbl) i s = worker_step W i s"
  unfolding worker_step_def without_entry_fields by (rule refl)

lemma without_entry_dump_entry: "dump_entry (without_entry W tbl) s = dump_entry W s"
  unfolding dump_entry_def without_entry_fields by (rule refl)

lemma without_entry_spawn:
  "spawn_and_read (without_entry W tbl) t opts rest s = spawn_and_read W t opts rest s"
  unfolding spawn_and_read_def without_entry_fields by (rule refl)

lemma without_entry_step:
  assumes c: "cfgTables W tbl = Some c" and ig: "\<not> IgnoreData c"
    and z: "NewReadTableOpt W c = zeroOpt W"
  shows "map_option no_debug (step (without_entry W tbl) a s) = map_option no_debug (step W a s)"
proof (cases a)
  case (Worker i)
  then show ?thesis
    by (simp add: step_def without_entry_worker_step)
next
  case Dump
  have tab: "no_debug (dump_table (without_entry W tbl) t rest s) = no_debug (dump_table W t rest s)"
    for t rest
  proof (cases "t = tbl")
    case True
    have "cfgTables (without_entry W tbl) tbl = None" by (simp add: without_entry_def)
    with True c ig z show ?thesis
      by (simp add: dump_table_def without_entry_spawn without_entry_fields)
        (simp add: spawn_and_read_def split: prod.splits)
  next
    case False
    then have "cfgTables (without_entry W tbl) t = cfgTables W t" by (simp add: without_entry_def)
    then show ?thesis
      unfolding dump_table_def without_entry_spawn without_entry_fields by simp
  qed
  have "dump_entry (without_entry W tbl) s = dump_entry W s"
    by (rule without_entry_dump_entry)
  with tab have "map_option no_debug (dump_step (without_entry W tbl) s)
      = map_option no_debug (dump_step W s)"
    by (simp add: dump_step_def split: dpc.splits list.splits)
  with Dump show ?thesis by (simp add: step_def)
qed

subsection \<open>What holds of every run\<close>

lemma reach_names_ok: "run W sched (init out) = Some s \<Longrightarrow> names_ok W s"
  by (rule run_invariant [where P = "names_ok W", OF step_names init_names])

lemma run_signals_ok: "signals_ok s \<Longrightarrow> run W sched s = Some s' \<Longrightarrow> signals_ok s'"
  by (rule run_invariant [where P = signals_ok, OF step_signals])

lemma step_ok:
  "GetTables (reader W) = Inr tables \<Longrightarrow> dump_ok W tables s \<Longrightarrow> step W a s = Some s' \<Longrightarrow>
   dump_ok W tables s'"
  by (erule step_cases) (auto intro: dump_step_ok worker_step_ok)

lemma reach_dump_ok:
  assumes "GetTables (reader W) = Inr tables" and "run W sched (init out) = Some s"
  shows "dump_ok W tables s"
  by (rule run_invariant [where P = "dump_ok W tables", OF step_ok [OF assms(1)] init_ok assms(2)])


lemma distinct_below_length:
  assumes "distinct xs" and "\<forall>i \<in> set xs. i < (n::nat)"
  shows "length xs \<le> n"
proof -
  from assms(2) have "set xs \<subseteq> {..<n}" by auto
  then have "card (set xs) \<le> card {..<n}" by (intro card_mono) simp_all
  with assms(1) show ?thesis by (simp add: distinct_card)
qed

subsection \<open>A worker whose channel is closed\<close>







section \<open>The claims\<close>

subsection \<open>The coercer and the serializer\<close>

text \<open>
  Claim C5. For a supported value that is not boxed the coercer returns the literal the
  spec names: an \<open>int64\<close> gives its decimal numeral, which reads back as the same integer
  (42 gives \<open>42\<close>), a boolean gives \<open>true\<close> or \<open>false\<close>, a string is returned unchanged,
  and nil gives \<open>NULL\<close>; no error comes with any of them.
\<close>

theorem coercer_literals:
  "toSQLStringValue L (VInt64 i) = Ret (FormatInt (sint i), None)
   \<and> ParseInt (FormatInt (sint i)) = sint i
   \<and> toSQLStringValue L (VInt64 42) = Ret (''42'', None)
   \<and> toSQLStringValue L (VInt64 (- 7)) = Ret (''-7'', None)
   \<and> toSQLStringValue L (VBool True) = Ret (''true'', None)
   \<and> toSQLStringValue L (VBool False) = Ret (''false'', None)
   \<and> toSQLStringValue L (VString s) = Ret (s, None)
   \<and> toSQLStringValue L VNil = Ret (''NULL'', None)"
proof -
  have "FormatInt (sint (42 :: 64 word)) = ''42''" by code_simp
  moreover have "FormatInt (sint (- 7 :: 64 word)) = ''-7''" by code_simp
  ultimately show ?thesis by (simp add: ParseInt_FormatInt FormatBool_def)
qed

text \<open>
  Claim C10. The type switch has a case for \<open>int64\<close> and one for \<open>float64\<close> and for no
  other numeric type: a value whose dynamic type is \<open>int\<close>, \<open>int32\<close>, \<open>uint64\<close>,
  \<open>float32\<close> or any other type not named reaches \<open>default\<close> and gets the error
  \<open>could not parse type\<close> with the empty string, while the two 64-bit forms are formatted.
\<close>

theorem only_64_bit_numbers:
  "toSQLStringValue L (VOther t) = Ret ('''', Some could_not_parse)
   \<and> toSQLStringValue L (VOther TInt) = Ret ('''', Some could_not_parse)
   \<and> toSQLStringValue L (VOther TInt32) = Ret ('''', Some could_not_parse)
   \<and> toSQLStringValue L (VOther TUint64) = Ret ('''', Some could_not_parse)
   \<and> toSQLStringValue L (VOther TFloat32) = Ret ('''', Some could_not_parse)
   \<and> toSQLStringValue L (VInt64 i) = Ret (FormatInt (sint i), None)
   \<and> toSQLStringValue L (VFloat64 f) = Ret (fmtFloat64 L f, None)"
  by simp

text \<open>
  Claim C2. A pointer of type \<open>*interface{}\<close> that is not nil is dereferenced and the value
  it points to goes through the switch again, so that a pointer to a nil interface gives
  \<open>NULL\<close>. The nil pointer does not: inside \<open>case *interface{}\<close> the test \<open>src == nil\<close>
  is false, since \<open>src\<close> has a dynamic type, and the dereference that follows panics.
\<close>

theorem nil_box_panics:
  "toSQLStringValue L (VPtr None) = Panic NilDereference
   \<and> toSQLStringValue L (VPtr (Some v)) = toSQLStringValue L v
   \<and> toSQLStringValue L (VPtr (Some VNil)) = Ret (''NULL'', None)"
  by (simp add: is_nil_interface_def)

text \<open>
  Claim C3, as stated, at a row whose second cell visited has an unsupported type: the
  serializer returns the error together with the map that holds the first column.
\<close>

theorem partial_map_returned:
  "toSQLColumnMap stub_libs [(''a'', VInt64 1), (''b'', VOther TInt)]
     = Ret ([''a'' \<mapsto> ''1''], Some could_not_parse)"
proof -
  have "FormatInt (sint (1 :: 64 word)) = ''1''" by code_simp
  then show ?thesis by (simp add: toSQLColumnMap_def)
qed

text \<open>
  Claim C3, amended. When the cells visited before a cell all coerce and that cell's
  coercion returns an error, the serializer returns this error at once, whatever cells
  come after, together with the map filled so far: its keys are exactly the columns
  visited before the failing cell, a strict subset of the row's columns.
\<close>

theorem first_error_returned:
  assumes "toSQLColumnMap L pre = Ret (m, None)"
    and "toSQLStringValue L v = Ret (x, Some e)"
    and "distinct (map fst (pre @ (c, v) # post))"
  shows "toSQLColumnMap L (pre @ (c, v) # post) = Ret (m, Some e)
    \<and> dom m = fst ` set pre
    \<and> dom m \<subset> fst ` set (pre @ (c, v) # post)"
proof -
  have 1: "toSQLColumnMap L (pre @ (c, v) # post) = Ret (m, Some e)"
    using assms(1,2) by (simp add: toSQLColumnMap_def range_row_append)
  have 2: "dom m = fst ` set pre"
    using assms(1) range_row_dom [of L pre Map.empty m] by (simp add: toSQLColumnMap_def)
  have "c \<notin> fst ` set pre" using assms(3) by auto
  with 2 have 3: "dom m \<subset> fst ` set (pre @ (c, v) # post)" by auto
  from 1 2 3 show ?thesis by blast
qed

theorem first_error_returned_witness:
  "toSQLColumnMap stub_libs [(''id'', VInt64 5)] = Ret ([''id'' \<mapsto> ''5''], None)
   \<and> toSQLStringValue stub_libs (VOther TUint8) = Ret ('''', Some could_not_parse)
   \<and> distinct (map fst ([(''id'', VInt64 5)] @ (''flag'', VOther TUint8) # [(''note'', VNil)]))
   \<and> toSQLColumnMap stub_libs ([(''id'', VInt64 5)] @ (''flag'', VOther TUint8) # [(''note'', VNil)])
       = Ret ([''id'' \<mapsto> ''5''], Some could_not_parse)
   \<and> dom [''id'' \<mapsto> ''5''] = fst ` set [(''id'', VInt64 5)]
   \<and> dom [''id'' \<mapsto> ''5''] \<subset> fst ` set ([(''id'', VInt64 5)] @ (''flag'', VOther TUint8) # [(''note'', VNil)])"
proof -
  have f: "FormatInt (sint (5 :: 64 word)) = ''5''" by code_simp
  have h1: "toSQLColumnMap stub_libs [(''id'', VInt64 5)] = Ret ([''id'' \<mapsto> ''5''], None)"
    using f by (simp add: toSQLColumnMap_def)
  have h2: "toSQLStringValue stub_libs (VOther TUint8) = Ret ('''', Some could_not_parse)"
    by simp
  have h3: "distinct (map fst ([(''id'', VInt64 5)] @ (''flag'', VOther TUint8) # [(''note'', VNil)]))"
    by simp
  from first_error_returned [OF h1 h2 h3] h1 h2 h3 show ?thesis by blast
qed

text \<open>
  Claim C4. A value of an unsupported type, also behind pointers, makes the coercer
  return the error \<open>could not parse type\<close> with the empty string; a row that holds such a
  cell is never serialized to a map without error, whatever the order of the visit; and
  the worker that holds such a row stops the process in its next step, writing nothing
  to the sink, after which neither it nor \<open>Dump\<close> takes a step.
\<close>

theorem unsupported_aborts_row:
  assumes "unsupported v" and "(c, v) \<in> set r"
    and "halted s = None" and "i < length (workers s)" and "pc (workers s ! i) = Holding r"
  shows "toSQLStringValue (lib W) v = Ret ('''', Some could_not_parse)
    \<and> (\<forall>m. toSQLColumnMap (lib W) r \<noteq> Ret (m, None))
    \<and> (\<exists>s'. step W (Worker i) s = Some s' \<and> halted s' \<noteq> None \<and> sink s' = sink s
          \<and> step W (Worker i) s' = None \<and> step W Dump s' = None)"
proof -
  have 1: "toSQLStringValue (lib W) v = Ret ('''', Some could_not_parse)"
    using assms(1) by (rule unsupported_fails)
  have 2: "\<forall>m. toSQLColumnMap (lib W) r \<noteq> Ret (m, None)"
    using range_row_no_skip [OF assms(2,1)] by (simp add: toSQLColumnMap_def)
  have 3: "\<exists>s'. step W (Worker i) s = Some s' \<and> halted s' \<noteq> None \<and> sink s' = sink s
          \<and> step W (Worker i) s' = None \<and> step W Dump s' = None"
  proof (cases "toSQLColumnMap (lib W) r")
    case (Panic p)
    with assms(3-5) show ?thesis by (simp add: step_def worker_step_def)
  next
    case (Ret me)
    obtain m eo where me: "me = (m, eo)" by (cases me)
    with Ret 2 obtain err where "eo = Some err" by (cases eo) auto
    with Ret me assms(3-5) show ?thesis by (simp add: step_def worker_step_def)
  qed
  from 1 2 3 show ?thesis by blast
qed

theorem unsupported_aborts_row_witness:
  "unsupported (VOther (TNamed ''struct''))
   \<and> (''payload'', VOther (TNamed ''struct'')) \<in> set [(''payload'', VOther (TNamed ''struct''))]
   \<and> run logs_world [Dump, Dump, Dump] (init []) = Some logs_holding
   \<and> halted logs_holding = None
   \<and> 0 < length (workers logs_holding)
   \<and> pc (workers logs_holding ! 0) = Holding [(''payload'', VOther (TNamed ''struct''))]
   \<and> toSQLStringValue (lib logs_world) (VOther (TNamed ''struct'')) = Ret ('''', Some could_not_parse)
   \<and> (\<forall>m. toSQLColumnMap (lib logs_world) [(''payload'', VOther (TNamed ''struct''))] \<noteq> Ret (m, None))
   \<and> (\<exists>s'. step logs_world (Worker 0) logs_holding = Some s' \<and> halted s' \<noteq> None
         \<and> sink s' = sink logs_holding
         \<and> step logs_world (Worker 0) s' = None \<and> step logs_world Dump s' = None)"
proof -
  have h1: "unsupported (VOther (TNamed ''struct''))" by simp
  have h2: "(''payload'', VOther (TNamed ''struct'')) \<in> set [(''payload'', VOther (TNamed ''struct''))]"
    by simp
  have h3: "halted logs_holding = None" by (simp add: logs_holding_def)
  have h4: "0 < length (workers logs_holding)" by (simp add: logs_holding_def)
  have h5: "pc (workers logs_holding ! 0) = Holding [(''payload'', VOther (TNamed ''struct''))]"
    by (simp add: logs_holding_def)
  have r: "run logs_world [Dump, Dump, Dump] (init []) = Some logs_holding" by code_simp
  from unsupported_aborts_row [OF h1 h2 h3 h4 h5, of logs_world] h1 h2 h3 h4 h5 r
  show ?thesis by simp
qed

subsection \<open>The workers and \<open>Dump\<close>\<close>

text \<open>
  Claim C8. A worker holds a row that serializes, and the sink rejects the insert
  statement. Its next two steps log the write error, write the new line, logging the
  error of that write if there is one, and leave it at the receive for the next row:
  the process has not stopped, and \<open>Dump\<close> and the rows still to be sent are untouched.
\<close>

theorem write_error_continues:
  assumes "halted s = None" and "i < length (workers s)" and "pc (workers s ! i) = Holding r"
    and "toSQLColumnMap (lib W) r = Ret (m, None)"
    and "WriteString W (sink s) (debugInsert (lib W) (tableName (workers s ! i)) m) = (out1, Some e1)"
    and "WriteString W out1 [CHR 0x0A] = (out2, e2)"
  shows "run W [Worker i, Worker i] s =
    Some (s\<lparr>sink := out2,
            logs := logs s @
              [Entry ErrorLevel (tableName (workers s ! i))
                 ''could not write insert statement to output'' (Some e1)] @
              log_error (tableName (workers s ! i)) ''could not write new line to output'' e2,
            workers := (workers s)[i := (workers s ! i)\<lparr>pc := Receiving\<rparr>]\<rparr>)"
proof -
  define s1 where "s1 = s\<lparr>sink := out1,
      logs := logs s @ [Entry ErrorLevel (tableName (workers s ! i))
                 ''could not write insert statement to output'' (Some e1)],
      workers := (workers s)[i := (workers s ! i)\<lparr>pc := Newline\<rparr>]\<rparr>"
  have 1: "step W (Worker i) s = Some s1"
    using assms(1-5) by (simp add: step_def worker_step_def Let_def log_error_def s1_def)
  have "halted s1 = None" "i < length (workers s1)" "pc (workers s1 ! i) = Newline"
    "sink s1 = out1" "tableName (workers s1 ! i) = tableName (workers s ! i)"
    using assms(1,2) by (simp_all add: s1_def)
  with assms(6) have 2: "step W (Worker i) s1 =
    Some (s1\<lparr>sink := out2,
            logs := logs s1 @
              log_error (tableName (workers s ! i)) ''could not write new line to output'' e2,
            workers := (workers s1)[i := (workers s1 ! i)\<lparr>pc := Receiving\<rparr>]\<rparr>)"
    by (simp add: step_def worker_step_def Let_def)
  from 1 2 show ?thesis using assms(2) by (simp add: s1_def)
qed

theorem write_error_continues_witness:
  "run picky_world [Dump, Dump, Dump] (init []) = Some picky_holding
   \<and> halted picky_holding = None
   \<and> 0 < length (workers picky_holding)
   \<and> pc (workers picky_holding ! 0) = Holding [(''id'', VInt64 1), (''name'', VString ''Ann'')]
   \<and> toSQLColumnMap (lib picky_world) [(''id'', VInt64 1), (''name'', VString ''Ann'')]
       = Ret ([''id'' \<mapsto> ''1'', ''name'' \<mapsto> ''Ann''], None)
   \<and> WriteString picky_world (sink picky_holding)
         (debugInsert (lib picky_world) (tableName (workers picky_holding ! 0))
            [''id'' \<mapsto> ''1'', ''name'' \<mapsto> ''Ann''])
       = ([''CREATE TABLE users;''], Some (New ''closed pipe''))
   \<and> WriteString picky_world [''CREATE TABLE users;''] [CHR 0x0A]
       = ([''CREATE TABLE users;''], Some (New ''closed pipe''))
   \<and> run picky_world [Worker 0, Worker 0] picky_holding =
       Some (picky_holding\<lparr>sink := [''CREATE TABLE users;''],
          logs := logs picky_holding @
            [Entry ErrorLevel ''users'' ''could not write insert statement to output''
               (Some (New ''closed pipe'')),
             Entry ErrorLevel ''users'' ''could not write new line to output''
               (Some (New ''closed pipe''))],
          workers := [\<lparr>tableName = ''users'', pc = Receiving, chanClosed = False\<rparr>]\<rparr>)"
proof -
  have r: "run picky_world [Dump, Dump, Dump] (init []) = Some picky_holding" by code_simp
  have h1: "halted picky_holding = None" by (simp add: picky_holding_def)
  have h2: "0 < length (workers picky_holding)" by (simp add: picky_holding_def)
  have h3: "pc (workers picky_holding ! 0) = Holding [(''id'', VInt64 1), (''name'', VString ''Ann'')]"
    by (simp add: picky_holding_def)
  have f: "FormatInt (sint (1 :: 64 word)) = ''1''" by code_simp
  have h4: "toSQLColumnMap (lib picky_world) [(''id'', VInt64 1), (''name'', VString ''Ann'')]
       = Ret ([''id'' \<mapsto> ''1'', ''name'' \<mapsto> ''Ann''], None)"
    using f by (simp add: toSQLColumnMap_def)
  have h5: "WriteString picky_world (sink picky_holding)
         (debugInsert (lib picky_world) (tableName (workers picky_holding ! 0))
            [''id'' \<mapsto> ''1'', ''name'' \<mapsto> ''Ann''])
       = ([''CREATE TABLE users;''], Some (New ''closed pipe''))"
    by (simp add: picky_world_def demo_def stub_libs_def picky_def picky_holding_def)
  have h6: "WriteString picky_world [''CREATE TABLE users;''] [CHR 0x0A]
       = ([''CREATE TABLE users;''], Some (New ''closed pipe''))"
    by (simp add: picky_world_def demo_def picky_def)
  have t: "tableName (workers picky_holding ! 0) = ''users''"
    "(workers picky_holding)[0 := (workers picky_holding ! 0)\<lparr>pc := Receiving\<rparr>]
      = [\<lparr>tableName = ''users'', pc = Receiving, chanClosed = False\<rparr>]"
    by (simp_all add: picky_holding_def)
  from write_error_continues [OF h1 h2 h3 h4 h5 h6] r h1 h2 h3 h4 h5 h6 t
  show ?thesis by (simp add: log_error_def)
qed

text \<open>
  Claim C7. For a table whose configuration entry sets \<open>IgnoreData\<close>, the loop body only
  logs and goes on to the next table; in no state of any run does a worker (with its
  channel) exist for the table, has \<open>ReadTable\<close> been called for it, or has a signal been
  sent on its behalf.
\<close>

theorem ignored_table_skipped:
  assumes "cfgTables W tbl = Some tableConfig" and "IgnoreData tableConfig"
    and "run W sched (init out) = Some s"
  shows "tbl \<notin> set (names s)
    \<and> tbl \<notin> fst ` set (reads s)
    \<and> tbl \<notin> (\<lambda>i. tableName (workers s ! i)) ` set (signals s)
    \<and> dump_table W tbl rest s0 =
        s0\<lparr>logs := logs s0 @ [Entry DebugLevel tbl ''ignoring data to dump'' None],
           dump := AtRange rest\<rparr>"
proof -
  from assms(1,2) have ig: "ignored W tbl" by (simp add: ignored_def)
  from reach_names_ok [OF assms(3)] have
    w: "\<forall>i < length (workers s). \<not> ignored W (tableName (workers s ! i))" and
    r: "\<forall>k < length (reads s). \<not> ignored W (fst (reads s ! k))" and
    g: "\<forall>i \<in> set (signals s). i < length (workers s)"
    by (simp_all add: names_ok_def)
  have 1: "tbl \<notin> set (names s)"
  proof
    assume "tbl \<in> set (names s)"
    then obtain i where "i < length (workers s)" "tableName (workers s ! i) = tbl"
      by (auto simp: names_def in_set_conv_nth)
    with w ig show False by auto
  qed
  have 2: "tbl \<notin> fst ` set (reads s)"
  proof
    assume "tbl \<in> fst ` set (reads s)"
    then obtain k where "k < length (reads s)" "fst (reads s ! k) = tbl"
      by (auto simp: in_set_conv_nth)
    with r ig show False by auto
  qed
  have 3: "tbl \<notin> (\<lambda>i. tableName (workers s ! i)) ` set (signals s)"
    using w g ig by auto
  have 4: "dump_table W tbl rest s0 =
        s0\<lparr>logs := logs s0 @ [Entry DebugLevel tbl ''ignoring data to dump'' None],
           dump := AtRange rest\<rparr>"
    using assms(1,2) by (simp add: dump_table_def)
  from 1 2 3 4 show ?thesis by blast
qed

theorem ignored_table_skipped_witness:
  "cfgTables demo_world ''logs'' = Some \<lparr>IgnoreData = True, Settings = 0\<rparr>
   \<and> IgnoreData \<lparr>IgnoreData = True, Settings = 0 :: nat\<rparr>
   \<and> run demo_world demo_schedule (init []) = Some demo_final
   \<and> ''logs'' \<notin> set (names demo_final)
   \<and> ''logs'' \<notin> fst ` set (reads demo_final)
   \<and> ''logs'' \<notin> (\<lambda>i. tableName (workers demo_final ! i)) ` set (signals demo_final)
   \<and> dump_table demo_world ''logs'' [] demo_final =
        demo_final\<lparr>logs := logs demo_final @ [Entry DebugLevel ''logs'' ''ignoring data to dump'' None],
           dump := AtRange []\<rparr>"
proof -
  have h1: "cfgTables demo_world ''logs'' = Some \<lparr>IgnoreData = True, Settings = 0\<rparr>"
    by (simp add: demo_world_def demo_def)
  have h2: "IgnoreData \<lparr>IgnoreData = True, Settings = 0 :: nat\<rparr>" by simp
  have h3: "run demo_world demo_schedule (init []) = Some demo_final" by code_simp
  from ignored_table_skipped [OF h1 h2 h3, of "[]" demo_final] h1 h2 h3 show ?thesis by simp
qed

text \<open>
  Claim C1, as stated, on the table \<open>users\<close> alone: \<open>Dump\<close> has returned, one worker was
  started, and no signal has been sent.
\<close>

theorem dump_returns_before_signal:
  "map_option dump (run (demo accepting [''users''] Map.empty)
       [Dump, Dump, Dump, Worker 0, Worker 0, Dump, Worker 0, Worker 0, Dump, Dump] (init []))
     = Some (Returned None)
   \<and> map_option names (run (demo accepting [''users''] Map.empty)
       [Dump, Dump, Dump, Worker 0, Worker 0, Dump, Worker 0, Worker 0, Dump, Dump] (init []))
     = Some [''users'']
   \<and> map_option signals (run (demo accepting [''users''] Map.empty)
       [Dump, Dump, Dump, Worker 0, Worker 0, Dump, Worker 0, Worker 0, Dump, Dump] (init []))
     = Some []"
  by code_simp

text \<open>
  Claim C1, amended. \<open>Dump\<close> only sends on \<open>done\<close> and waits for no signal. When it
  returns without error, the workers started are those of the tables not ignored, in
  the order of the tables, the reader has closed the channel of each, and the signals
  sent so far come from workers that have returned, at most one from each: there are
  at most as many as tables started, and there may be fewer.
\<close>

theorem dump_returns_after_reads:
  assumes "GetTables (reader W) = Inr tables" and "run W sched (init out) = Some s"
    and "dump s = Returned None"
  shows "names s = filter (\<lambda>t. \<not> ignored W t) tables
    \<and> (\<forall>w \<in> set (workers s). chanClosed w)
    \<and> distinct (signals s)
    \<and> (\<forall>i \<in> set (signals s). i < length (workers s) \<and> pc (workers s ! i) = Finished)
    \<and> length (signals s) \<le> length (filter (\<lambda>t. \<not> ignored W t) tables)"
proof -
  from reach_dump_ok [OF assms(1,2)] assms(3) have
    n: "names s = filter (\<lambda>t. \<not> ignored W t) tables" and c: "False \<notin> set (closeds s)"
    by (simp_all add: dump_ok_def)
  from c have c': "\<forall>w \<in> set (workers s). chanClosed w"
    by (auto simp: closeds_def)
  from run_signals_ok [OF init_signals assms(2)] have
    d: "distinct (signals s)" and
    f: "\<forall>i \<in> set (signals s). i < length (workers s) \<and> pc (workers s ! i) = Finished"
    by (simp_all add: signals_ok_def)
  from f have "\<forall>i \<in> set (signals s). i < length (workers s)" by simp
  from distinct_below_length [OF d this] have "length (signals s) \<le> length (names s)"
    by (simp add: names_def)
  with n have l: "length (signals s) \<le> length (filter (\<lambda>t. \<not> ignored W t) tables)" by simp
  from n c' d f l show ?thesis by blast
qed

theorem dump_returns_after_reads_witness:
  "GetTables (reader demo_world) = Inr [''users'', ''logs'']
   \<and> run demo_world demo_schedule (init []) = Some demo_final
   \<and> dump demo_final = Returned None
   \<and> names demo_final = filter (\<lambda>t. \<not> ignored demo_world t) [''users'', ''logs'']
   \<and> names demo_final = [''users'']
   \<and> distinct (signals demo_final)
   \<and> length (signals demo_final) \<le> length (filter (\<lambda>t. \<not> ignored demo_world t) [''users'', ''logs''])"
proof -
  have h1: "GetTables (reader demo_world) = Inr [''users'', ''logs'']"
    by (simp add: demo_world_def demo_def)
  have h2: "run demo_world demo_schedule (init []) = Some demo_final" by code_simp
  have h3: "dump demo_final = Returned None" by (simp add: demo_final_def)
  have "names demo_final = [''users'']" by (simp add: demo_final_def names_def)
  with dump_returns_after_reads [OF h1 h2 h3] h1 h2 h3 show ?thesis by simp
qed




text \<open>
  Claim C9, as stated, on the table \<open>users\<close> with an entry whose settings give read
  options other than the zero value: the reader is called with the zero options when
  the entry is absent and with the options built from the entry when it is present.
\<close>

theorem entry_changes_options:
  "map_option reads (run (without_entry (entry_world 10) ''users'') [Dump, Dump] (init []))
     = Some [(''users'', 0)]
   \<and> map_option reads (run (entry_world 10) [Dump, Dump] (init []))
     = Some [(''users'', 10)]"
  by code_simp

text \<open>
  Claim C9, amended. For a table with an entry that does not ignore its data, the loop
  body starts a worker and calls the reader both with the entry and without it: without
  it the options are the zero value and a debug entry is logged, with it the options
  are those \<open>NewReadTableOpt\<close> builds. When these are the zero value, the two runs take
  the same steps under every schedule and reach states that differ in debug entries
  only.
\<close>

theorem entry_or_none:
  assumes c: "cfgTables W tbl = Some c" and ig: "\<not> IgnoreData c"
  shows "dump_table (without_entry W tbl) tbl rest s =
           spawn_and_read (without_entry W tbl) tbl (zeroOpt W) rest
             (s\<lparr>logs := logs s @ [Entry DebugLevel tbl ''no configuration found for table'' None]\<rparr>)
         \<and> dump_table W tbl rest s = spawn_and_read W tbl (NewReadTableOpt W c) rest s
         \<and> (NewReadTableOpt W c = zeroOpt W \<longrightarrow>
              map_option no_debug (run (without_entry W tbl) sched (init out))
              = map_option no_debug (run W sched (init out)))"
proof -
  have "NewReadTableOpt W c = zeroOpt W \<Longrightarrow>
      map_option no_debug (run (without_entry W tbl) sched (init out))
      = map_option no_debug (run W sched (init out))"
    by (rule run_no_debug) (simp_all add: without_entry_step [OF c ig])
  moreover have "cfgTables (without_entry W tbl) tbl = None" by (simp add: without_entry_def)
  ultimately show ?thesis using c ig
    by (simp add: dump_table_def without_entry_fields)
qed

theorem entry_or_none_witness:
  "cfgTables (entry_world 0) ''users'' = Some \<lparr>IgnoreData = False, Settings = 0\<rparr>
   \<and> \<not> IgnoreData \<lparr>IgnoreData = False, Settings = 0 :: nat\<rparr>
   \<and> NewReadTableOpt (entry_world 0) \<lparr>IgnoreData = False, Settings = 0\<rparr> = zeroOpt (entry_world 0)
   \<and> map_option no_debug (run (without_entry (entry_world 0) ''users'') entry_schedule (init []))
       = map_option no_debug (run (entry_world 0) entry_schedule (init []))
   \<and> map_option dump (run (entry_world 0) entry_schedule (init [])) = Some (Returned None)
   \<and> map_option sink (run (entry_world 0) entry_schedule (init []))
       = Some [''CREATE TABLE users;'', ''INSERT INTO users'', [CHR 0x0A],
               ''INSERT INTO users'', [CHR 0x0A]]"
proof -
  have h1: "cfgTables (entry_world 0) ''users'' = Some \<lparr>IgnoreData = False, Settings = 0\<rparr>"
    by (simp add: entry_world_def demo_def)
  have h2: "\<not> IgnoreData \<lparr>IgnoreData = False, Settings = 0 :: nat\<rparr>" by simp
  have h3: "NewReadTableOpt (entry_world 0) \<lparr>IgnoreData = False, Settings = 0\<rparr> = zeroOpt (entry_world 0)"
    by (simp add: entry_world_def demo_def)
  have d: "map_option dump (run (entry_world 0) entry_schedule (init [])) = Some (Returned None)"
    by code_simp
  have k: "map_option sink (run (entry_world 0) entry_schedule (init []))
       = Some [''CREATE TABLE users;'', ''INSERT INTO users'', [CHR 0x0A],
               ''INSERT INTO users'', [CHR 0x0A]]"
    by code_simp
  from entry_or_none [OF h1 h2, of "[]" "init []" entry_schedule "[]"] h1 h2 h3 d k
  show ?thesis by simp
qed

end
